theory Spec2Isabelle
  imports Complex_Main "HOL-Library.Log_Nat"
begin

section \<open>Data model of the budget tracker (src/app.py)\<close>

text \<open>
  Amounts are the floats the forms hand to the ledger functions. A finite float is
  modelled by the rational number it is; comparisons of floats are comparisons of these
  numbers. The savings operations add and subtract with the rounding of binary64
  (\<open>float_add\<close>, \<open>float_sub\<close> below). Infinities and NaN are outside the model.

  A calendar date is its proleptic Gregorian ordinal (\<open>date.toordinal()\<close>: day 1 is
  0001-01-01, a Monday). The program stores the \<open>date\<close> of an entry as the
  \<open>%Y-%m-%d\<close> text of the date object it was given and parses that text back before
  comparing; the stored field is modelled by the date it denotes (the round trip through
  the text is the identity for the four-digit years the date input offers). In the same
  way the \<open>timestamp\<close> field, the ISO text of \<open>datetime.now()\<close>, is modelled by the
  instant it denotes, and that instant is an explicit argument of every operation that
  reads the clock. The time of day counts microseconds since midnight.

  The three kinds of entry share the keys \<open>amount\<close>, \<open>description\<close>, \<open>date\<close> and
  \<open>timestamp\<close>; income and expense entries add \<open>account\<close>, expense entries
  \<open>category\<close> as well, and savings transactions the key \<open>type\<close>, here
  \<open>tx_type\<close>.
\<close>

type_synonym date = int

record datetime =
  date_part :: date
  time_of_day :: nat

record entry =
  amount :: rat
  description :: string
  date :: date
  timestamp :: datetime

record current_entry = entry +
  account :: string

type_synonym income_entry = current_entry

record expense_entry = current_entry +
  category :: string

record savings_transaction = entry +
  tx_type :: string

record settings =
  daily_budget :: rat
  week_start :: string

record app_data =
  income :: "income_entry list"
  expenses :: "expense_entry list"
  savings_account :: rat
  savings_transactions :: "savings_transaction list"
  settings :: settings

text \<open>
  The program keeps its state in \<open>st.session_state.data\<close> and writes the whole of it
  to the file \<open>budget_data.json\<close> in \<open>save_data\<close>. A session is the pair of the
  state in memory and the document on disk (\<open>None\<close> while the file does not exist).
\<close>

record session =
  data :: app_data
  data_file :: "app_data option"

definition save_data :: "session \<Rightarrow> session" where
  "save_data w = w\<lparr>data_file := Some (data w)\<rparr>"

text \<open>The state of a first run, when no data file exists (nothing is saved then).\<close>

definition default_data :: app_data where
  "default_data =
     \<lparr>income = [], expenses = [], savings_account = 0, savings_transactions = [],
      settings = \<lparr>daily_budget = 20, week_start = ''Monday''\<rparr>\<rparr>"

definition initial_session :: session where
  "initial_session = \<lparr>data = default_data, data_file = None\<rparr>"

section \<open>Binary floating point\<close>

text \<open>
  Python's \<open>float\<close> is IEEE 754 binary64: 53 significant bits, the smallest spacing
  \<open>2 powi - 1074\<close>, results rounded to the nearest float and, halfway between two, to
  the one with the even significand. The exponent is not bounded above here: a result
  beyond the largest float, which the program holds as \<open>inf\<close>, is outside the model.

  \<open>ilog2 x\<close> is the integer \<open>k\<close> with \<open>2 powi k \<le> \<bar>x\<bar> < 2 powi (k + 1)\<close>, for
  \<open>x\<close> other than 0.
\<close>

definition ilog2 :: "rat \<Rightarrow> int" where
  "ilog2 x = (if 1 \<le> \<bar>x\<bar> then bitlen \<lfloor>\<bar>x\<bar>\<rfloor> - 1 else - bitlen (\<lceil>1 / \<bar>x\<bar>\<rceil> - 1))"

text \<open>Rounding to the nearest integer, a half to the even one.\<close>

definition rne :: "rat \<Rightarrow> int" where
  "rne q = (let f = \<lfloor>q\<rfloor>; r = q - of_int f in
            if r < 1 / 2 then f else if 1 / 2 < r then f + 1 else if even f then f else f + 1)"

text \<open>The exponent of the spacing of the floats around \<open>x\<close>.\<close>

definition ulp_exp :: "rat \<Rightarrow> int" where
  "ulp_exp x = max (ilog2 x - 52) (- 1074)"

text \<open>The float nearest to \<open>x\<close>.\<close>

definition fl :: "rat \<Rightarrow> rat" where
  "fl x = (if x = 0 then 0 else of_int (rne (x / 2 powi ulp_exp x)) * 2 powi ulp_exp x)"

definition is_double :: "rat \<Rightarrow> bool" where
  "is_double x = (fl x = x)"

text \<open>\<open>a + b\<close> and \<open>a - b\<close> of two floats.\<close>

definition float_add :: "rat \<Rightarrow> rat \<Rightarrow> rat" where
  "float_add a b = fl (a + b)"

definition float_sub :: "rat \<Rightarrow> rat \<Rightarrow> rat" where
  "float_sub a b = fl (a - b)"

section \<open>Ledger operations\<close>

definition add_income :: "rat \<Rightarrow> string \<Rightarrow> date \<Rightarrow> datetime \<Rightarrow> session \<Rightarrow> session" where
  "add_income amt descr d now w =
     save_data (w\<lparr>data := (data w)\<lparr>income := income (data w) @
       [\<lparr>amount = amt, description = descr, date = d, timestamp = now,
         account = ''current''\<rparr>]\<rparr>\<rparr>)"

definition add_expense ::
  "rat \<Rightarrow> string \<Rightarrow> string \<Rightarrow> date \<Rightarrow> datetime \<Rightarrow> session \<Rightarrow> session" where
  "add_expense amt descr cat d now w =
     save_data (w\<lparr>data := (data w)\<lparr>expenses := expenses (data w) @
       [\<lparr>amount = amt, description = descr, date = d, timestamp = now,
         account = ''current'', category = cat\<rparr>]\<rparr>\<rparr>)"

definition add_to_savings :: "rat \<Rightarrow> string \<Rightarrow> date \<Rightarrow> datetime \<Rightarrow> session \<Rightarrow> session" where
  "add_to_savings amt descr d now w =
     (let w1 = w\<lparr>data := (data w)\<lparr>savings_account :=
                 float_add (savings_account (data w)) amt\<rparr>\<rparr>;
          w2 = w1\<lparr>data := (data w1)\<lparr>savings_transactions := savings_transactions (data w1) @
                 [\<lparr>amount = amt, description = descr, date = d, timestamp = now,
                   tx_type = ''deposit''\<rparr>]\<rparr>\<rparr>
      in save_data w2)"

text \<open>The result pairs the returned flag with the session after the call.\<close>

definition withdraw_from_savings ::
  "rat \<Rightarrow> string \<Rightarrow> date \<Rightarrow> datetime \<Rightarrow> session \<Rightarrow> bool \<times> session" where
  "withdraw_from_savings amt descr d now w =
     (if savings_account (data w) \<ge> amt then
        (let w1 = w\<lparr>data := (data w)\<lparr>savings_account :=
                  float_sub (savings_account (data w)) amt\<rparr>\<rparr>;
             w2 = w1\<lparr>data := (data w1)\<lparr>savings_transactions :=
                    savings_transactions (data w1) @
                    [\<lparr>amount = amt, description = descr, date = d, timestamp = now,
                      tx_type = ''withdrawal''\<rparr>]\<rparr>\<rparr>
         in (True, save_data w2))
      else (False, w))"

text \<open>
  \<open>del xs[i]\<close> for an index inside the list, the only case the guards of
  \<open>delete_income\<close> and \<open>delete_expense\<close> let through.
\<close>

fun py_del :: "nat \<Rightarrow> 'a list \<Rightarrow> 'a list" where
  "py_del i [] = []"
| "py_del 0 (x # xs) = xs"
| "py_del (Suc i) (x # xs) = x # py_del i xs"

definition delete_income :: "int \<Rightarrow> session \<Rightarrow> session" where
  "delete_income index w =
     (if 0 \<le> index \<and> index < int (length (income (data w))) then
        save_data (w\<lparr>data := (data w)\<lparr>income := py_del (nat index) (income (data w))\<rparr>\<rparr>)
      else w)"

definition delete_expense :: "int \<Rightarrow> session \<Rightarrow> session" where
  "delete_expense index w =
     (if 0 \<le> index \<and> index < int (length (expenses (data w))) then
        save_data (w\<lparr>data := (data w)\<lparr>expenses := py_del (nat index) (expenses (data w))\<rparr>\<rparr>)
      else w)"

section \<open>Budget status\<close>



text \<open>\<open>date.weekday()\<close>: 0 for Monday up to 6 for Sunday.\<close>

definition weekday :: "date \<Rightarrow> int" where
  "weekday d = (d + 6) mod 7"

text \<open>
  The local \<open>week_start\<close> of \<open>calculate_budget_status\<close> (the setting of that name
  is never read).
\<close>

definition week_start_of :: "date \<Rightarrow> date" where
  "week_start_of today = today - weekday today"



section \<open>Replaying savings operations\<close>

text \<open>
  A deposit is a call of \<open>add_to_savings\<close>, a withdrawal a call of
  \<open>withdraw_from_savings\<close> whose flag the caller only reports to the user.
\<close>

datatype savings_op =
  Deposit rat string date datetime
| Withdraw rat string date datetime

fun op_amount :: "savings_op \<Rightarrow> rat" where
  "op_amount (Deposit a _ _ _) = a"
| "op_amount (Withdraw a _ _ _) = a"

fun apply_savings_op :: "session \<Rightarrow> savings_op \<Rightarrow> session" where
  "apply_savings_op w (Deposit a descr d now) = add_to_savings a descr d now w"
| "apply_savings_op w (Withdraw a descr d now) = snd (withdraw_from_savings a descr d now w)"

definition replay :: "savings_op list \<Rightarrow> session \<Rightarrow> session" where
  "replay ops w = foldl apply_savings_op w ops"

fun is_deposit :: "savings_op \<Rightarrow> bool" where
  "is_deposit (Deposit _ _ _ _) = True"
| "is_deposit (Withdraw _ _ _ _) = False"

text \<open>
  The balance recomputed from the transaction log, in three ways: the sum of the deposits
  minus the sum of the withdrawals as numbers; the same with the sums and the difference
  computed in floats, as \<open>sum(...) - sum(...)\<close> of Python would; and the log applied to
  0.0 entry by entry, in the order and with the operations of the program.
\<close>

definition deposits_minus_withdrawals :: "savings_transaction list \<Rightarrow> rat" where
  "deposits_minus_withdrawals txs =
     sum_list (map amount (filter (\<lambda>t. tx_type t = ''deposit'') txs)) -
     sum_list (map amount (filter (\<lambda>t. tx_type t = ''withdrawal'') txs))"

definition float_sum :: "rat list \<Rightarrow> rat" where
  "float_sum xs = foldl float_add 0 xs"

definition deposits_minus_withdrawals_float :: "savings_transaction list \<Rightarrow> rat" where
  "deposits_minus_withdrawals_float txs =
     float_sub (float_sum (map amount (filter (\<lambda>t. tx_type t = ''deposit'') txs)))
       (float_sum (map amount (filter (\<lambda>t. tx_type t = ''withdrawal'') txs)))"

definition apply_transaction :: "rat \<Rightarrow> savings_transaction \<Rightarrow> rat" where
  "apply_transaction b t =
     (if tx_type t = ''deposit'' then float_add b (amount t) else float_sub b (amount t))"

definition log_balance :: "savings_transaction list \<Rightarrow> rat" where
  "log_balance txs = foldl apply_transaction 0 txs"

section \<open>Concrete inputs\<close>

text \<open>
  Ordinal 738886 is Monday 2024-01-01, 738888 the Wednesday of that week and 738892 its
  Sunday.
\<close>

definition monday :: date where
  "monday = 738886"

definition wednesday :: date where
  "wednesday = 738888"


definition clock :: "date \<Rightarrow> datetime" where
  "clock d = \<lparr>date_part = d, time_of_day = 43200000000\<rparr>"

definition example_ops :: "savings_op list" where
  "example_ops =
     [Deposit 50 ''salary'' monday (clock monday),
      Withdraw 60 ''trip'' wednesday (clock wednesday),
      Withdraw 20 ''books'' wednesday (clock wednesday)]"

text \<open>The floats written \<open>0.1\<close> and \<open>0.2\<close>.\<close>

definition f01 :: rat where
  "f01 = fl (1 / 10)"

definition f02 :: rat where
  "f02 = fl (2 / 10)"

definition two_deposits :: "savings_op list" where
  "two_deposits =
     [Deposit f01 ''a'' monday (clock monday),
      Deposit f02 ''b'' monday (clock monday)]"

definition deposit_withdraw_deposit :: "savings_op list" where
  "deposit_withdraw_deposit =
     [Deposit f01 ''a'' monday (clock monday),
      Withdraw f01 ''b'' monday (clock monday),
      Deposit f02 ''c'' monday (clock monday)]"

definition big_session :: session where
  "big_session =
     add_to_savings 10000000000000000 ''bonus'' monday (clock monday) initial_session"

definition session50 :: session where
  "session50 = add_to_savings 50 ''salary'' monday (clock monday) initial_session"

definition three_incomes :: session where
  "three_incomes =
     add_income 30 ''c'' wednesday (clock wednesday)
       (add_income 20 ''b'' monday (clock monday)
         (add_income 10 ''a'' monday (clock monday) initial_session))"

definition three_expenses :: session where
  "three_expenses =
     add_expense 30 ''c'' ''Bills'' wednesday (clock wednesday)
       (add_expense 20 ''b'' ''Food'' monday (clock monday)
         (add_expense 10 ''a'' ''Food'' monday (clock monday) initial_session))"



section \<open>Helper facts\<close>

subsection \<open>Rounding\<close>

lemma rne_cases: "rne q = \<lfloor>q\<rfloor> \<or> rne q = \<lfloor>q\<rfloor> + 1"
  by (simp add: rne_def Let_def)

lemma rne_of_int: "rne (of_int n) = n"
  by (simp add: rne_def)

lemma rne_nearest: "\<bar>of_int (rne q) - q\<bar> \<le> \<bar>of_int z - q\<bar>"
proof -
  define f where "f = \<lfloor>q\<rfloor>"
  have lo: "of_int f \<le> q" and hi: "q < of_int f + 1"
    unfolding f_def by linarith+
  have z: "of_int z \<le> (of_int f :: rat) \<or> (of_int f :: rat) + 1 \<le> of_int z"
  proof (cases "z \<le> f")
    case True
    then have "(of_int z :: rat) \<le> of_int f" by simp
    then show ?thesis by simp
  next
    case False
    then have "f + 1 \<le> z" by simp
    then have "(of_int (f + 1) :: rat) \<le> of_int z" by (simp only: of_int_le_iff)
    then show ?thesis by simp
  qed
  have c: "(rne q = f \<and> q - of_int f \<le> 1 / 2) \<or> (rne q = f + 1 \<and> 1 / 2 \<le> q - of_int f)"
  proof -
    consider "q - of_int f < 1 / 2" | "1 / 2 < q - of_int f" | "q - of_int f = 1 / 2"
      by linarith
    then show ?thesis
    proof cases
      case 1
      then have "rne q = f" unfolding rne_def f_def Let_def by (simp only: if_True)
      with 1 show ?thesis by simp
    next
      case 2
      then have n: "\<not> q - of_int f < 1 / 2" by simp
      have "rne q = f + 1" unfolding rne_def Let_def f_def [symmetric]
        by (simp only: n 2 if_False if_True)
      with 2 show ?thesis by simp
    next
      case 3
      then have n: "\<not> q - of_int f < 1 / 2" "\<not> 1 / 2 < q - of_int f" by simp_all
      have "rne q = (if even f then f else f + 1)" unfolding rne_def Let_def f_def [symmetric]
        by (simp only: n if_False)
      with 3 show ?thesis by (cases "even f") simp_all
    qed
  qed
  from c show ?thesis
  proof
    assume "rne q = f \<and> q - of_int f \<le> 1 / 2"
    then show ?thesis using lo hi z by auto
  next
    assume "rne q = f + 1 \<and> 1 / 2 \<le> q - of_int f"
    then show ?thesis using lo hi z by auto
  qed
qed

lemma rne_nonneg: "0 \<le> q \<Longrightarrow> 0 \<le> rne q"
proof -
  assume "0 \<le> q"
  then have "0 \<le> \<lfloor>q\<rfloor>" by simp
  then show ?thesis using rne_cases [of q] by auto
qed

lemma rne_nonpos: "q \<le> 0 \<Longrightarrow> rne q \<le> 0"
proof -
  assume q: "q \<le> 0"
  have "\<bar>of_int (rne q) - q\<bar> \<le> \<bar>of_int 0 - q\<bar>" by (rule rne_nearest)
  then have "of_int (rne q) - q \<le> - q" using q by simp
  then have "(of_int (rne q) :: rat) \<le> 0" by simp
  then show ?thesis by simp
qed

lemma pow2_pos: "0 < (2::rat) powi e"
  by (simp add: zero_less_power_int)

lemma pow2_add: "(2::rat) powi (a + b) = 2 powi a * 2 powi b"
  by (simp add: power_int_add)

lemma pow2_nat: "0 \<le> e \<Longrightarrow> (2::rat) powi e = of_int (2 ^ nat e)"
  by (simp add: power_int_def)

lemma pow2_mono: "a \<le> b \<Longrightarrow> (2::rat) powi a \<le> 2 powi b"
  by (simp add: power_int_increasing)

lemma pow2_less_iff: "((2::rat) powi a < 2 powi b) = (a < b)"
proof
  assume l: "(2::rat) powi a < 2 powi b"
  show "a < b"
  proof (rule ccontr)
    assume "\<not> a < b"
    then have "b \<le> a" by simp
    then have "(2::rat) powi b \<le> 2 powi a" by (rule pow2_mono)
    with l show False by simp
  qed
next
  assume "a < b"
  then show "(2::rat) powi a < 2 powi b" by (simp add: power_int_strict_increasing)
qed

lemma fl_0: "fl 0 = 0"
  by (simp add: fl_def)

lemma fl_nonneg: "0 \<le> x \<Longrightarrow> 0 \<le> fl x"
  unfolding fl_def using pow2_pos [of "ulp_exp x"]
  by (auto intro!: mult_nonneg_nonneg rne_nonneg simp: less_imp_le)

lemma fl_nonpos: "x \<le> 0 \<Longrightarrow> fl x \<le> 0"
proof (cases "x = 0")
  case True
  then show ?thesis by (simp add: fl_0)
next
  case False
  assume x: "x \<le> 0"
  have "x / 2 powi ulp_exp x \<le> 0"
    using x pow2_pos [of "ulp_exp x"] by (simp add: divide_nonpos_pos)
  then have "rne (x / 2 powi ulp_exp x) \<le> 0" by (rule rne_nonpos)
  then have "(of_int (rne (x / 2 powi ulp_exp x)) :: rat) \<le> 0" by simp
  then show ?thesis
    unfolding fl_def using False pow2_pos [of "ulp_exp x"]
    by (simp add: mult_nonpos_nonneg less_imp_le)
qed


lemma recip_less: "0 < a \<Longrightarrow> a < b \<Longrightarrow> 1 / b < 1 / (a::rat)"
  by (simp add: frac_less2)

lemma ilog2_bounds:
  assumes "x \<noteq> 0"
  shows "2 powi ilog2 x \<le> \<bar>x\<bar> \<and> \<bar>x\<bar> < 2 powi (ilog2 x + 1)"
proof (cases "1 \<le> \<bar>x\<bar>")
  case True
  define n where "n = \<lfloor>\<bar>x\<bar>\<rfloor>"
  have n1: "1 \<le> n" unfolding n_def using True by simp
  then have n0: "0 < n" by simp
  have k: "ilog2 x = bitlen n - 1" unfolding ilog2_def n_def using True by simp
  have b1: "1 \<le> bitlen n" using n0 bitlen_eq_zero_iff [of n] bitlen_nonneg [of n]
    by linarith
  from bitlen_bounds [OF n0]
  have lo: "2 ^ nat (bitlen n - 1) \<le> n" and hi: "n < 2 ^ nat (bitlen n)" by simp_all
  have "(2::rat) powi ilog2 x = of_int (2 ^ nat (bitlen n - 1))"
    unfolding k using b1 by (simp add: pow2_nat)
  also have "\<dots> \<le> of_int n" using lo by (simp only: of_int_le_iff)
  also have "\<dots> \<le> \<bar>x\<bar>" unfolding n_def by simp
  finally have A: "2 powi ilog2 x \<le> \<bar>x\<bar>" .
  have "n + 1 \<le> 2 ^ nat (bitlen n)" using hi by simp
  then have "(of_int (n + 1) :: rat) \<le> of_int (2 ^ nat (bitlen n))" by (simp only: of_int_le_iff)
  moreover have "\<bar>x\<bar> < of_int (n + 1)" unfolding n_def by linarith
  moreover have "(2::rat) powi (ilog2 x + 1) = of_int (2 ^ nat (bitlen n))"
    unfolding k using b1 by (simp add: pow2_nat)
  ultimately have B: "\<bar>x\<bar> < 2 powi (ilog2 x + 1)" by simp
  from A B show ?thesis ..
next
  case False
  define y where "y = 1 / \<bar>x\<bar>"
  define m where "m = \<lceil>y\<rceil> - 1"
  have ax: "0 < \<bar>x\<bar>" "\<bar>x\<bar> < 1" using assms False by simp_all
  have y1: "1 < y" unfolding y_def using ax by simp
  have m1: "1 \<le> m" unfolding m_def using y1 by (simp add: less_ceiling_iff)
  then have m0: "0 < m" by simp
  have my: "of_int m < y" "y \<le> of_int m + 1" unfolding m_def by linarith+
  have k: "ilog2 x = - bitlen m" unfolding ilog2_def m_def y_def using False by simp
  have b1: "1 \<le> bitlen m" using m0 bitlen_eq_zero_iff [of m] bitlen_nonneg [of m]
    by linarith
  from bitlen_bounds [OF m0]
  have lo: "2 ^ nat (bitlen m - 1) \<le> m" and hi: "m < 2 ^ nat (bitlen m)" by simp_all
  have xy: "\<bar>x\<bar> = 1 / y" unfolding y_def by simp
  have p1: "(2::rat) powi (- bitlen m) = 1 / of_int (2 ^ nat (bitlen m))"
    using b1 by (simp add: power_int_def field_simps)
  have p2: "(2::rat) powi (- bitlen m + 1) = 1 / of_int (2 ^ nat (bitlen m - 1))"
  proof -
    have "(2::rat) powi (- bitlen m + 1) = 2 powi (- (bitlen m - 1))" by simp
    also have "\<dots> = inverse (2 powi (bitlen m - 1))" by (rule power_int_minus)
    also have "\<dots> = 1 / of_int (2 ^ nat (bitlen m - 1))"
      using b1 by (simp add: pow2_nat inverse_eq_divide)
    finally show ?thesis .
  qed
  have "m + 1 \<le> 2 ^ nat (bitlen m)" using hi by simp
  then have "(of_int (m + 1) :: rat) \<le> of_int (2 ^ nat (bitlen m))" by (simp only: of_int_le_iff)
  then have "y \<le> of_int (2 ^ nat (bitlen m))" using my by simp
  then have "1 / of_int (2 ^ nat (bitlen m)) \<le> 1 / y" using y1 by (simp add: frac_le)
  then have A: "2 powi ilog2 x \<le> \<bar>x\<bar>" unfolding k p1 xy .
  have q: "(of_int (2 ^ nat (bitlen m - 1)) :: rat) \<le> of_int m" using lo by (simp only: of_int_le_iff)
  have q1: "of_int (2 ^ nat (bitlen m - 1)) < y" using q my(1) by (rule le_less_trans)
  have q2: "(0::rat) < of_int (2 ^ nat (bitlen m - 1))" by simp
  have "1 / y < 1 / of_int (2 ^ nat (bitlen m - 1))"
    using q2 q1 by (rule recip_less)
  then have B: "\<bar>x\<bar> < 2 powi (ilog2 x + 1)" unfolding k p2 xy .
  from A B show ?thesis ..
qed

lemma ilog2_less: "x \<noteq> 0 \<Longrightarrow> \<bar>x\<bar> < 2 powi k \<Longrightarrow> ilog2 x < k"
  using ilog2_bounds [of x] pow2_less_iff [of "ilog2 x" k] by simp

lemma ulp_exp_bounds:
  assumes "x \<noteq> 0"
  shows "- 1074 \<le> ulp_exp x" and "\<bar>x\<bar> < 2 powi (ulp_exp x + 53)"
    and "- 1074 < ulp_exp x \<Longrightarrow> 2 powi (ulp_exp x + 52) \<le> \<bar>x\<bar>"
proof -
  show "- 1074 \<le> ulp_exp x" by (simp add: ulp_exp_def)
  have "ilog2 x + 1 \<le> ulp_exp x + 53" by (simp add: ulp_exp_def)
  then have "(2::rat) powi (ilog2 x + 1) \<le> 2 powi (ulp_exp x + 53)" by (rule pow2_mono)
  then show "\<bar>x\<bar> < 2 powi (ulp_exp x + 53)" using ilog2_bounds [OF assms] by simp
  assume "- 1074 < ulp_exp x"
  then have "ulp_exp x + 52 = ilog2 x" by (simp add: ulp_exp_def max_def split: if_splits)
  then show "2 powi (ulp_exp x + 52) \<le> \<bar>x\<bar>" using ilog2_bounds [OF assms] by simp
qed

lemma fl_multiple: "\<bar>fl x - x\<bar> \<le> \<bar>of_int z * 2 powi ulp_exp x - x\<bar>"
proof (cases "x = 0")
  case True
  then show ?thesis by (simp add: fl_0)
next
  case False
  define u where "u = (2::rat) powi ulp_exp x"
  have u: "0 < u" unfolding u_def by (rule pow2_pos)
  have f: "fl x = of_int (rne (x / u)) * u" unfolding fl_def u_def using False by simp
  have "\<bar>of_int (rne (x / u)) - x / u\<bar> \<le> \<bar>of_int z - x / u\<bar>" by (rule rne_nearest)
  then have "\<bar>of_int (rne (x / u)) - x / u\<bar> * u \<le> \<bar>of_int z - x / u\<bar> * u"
    using u by (simp add: mult_right_mono)
  moreover have sc: "\<bar>a - x / u\<bar> * u = \<bar>a * u - x\<bar>" for a :: rat
  proof -
    have "(a - x / u) * u = a * u - x" using u by (simp add: left_diff_distrib)
    then have "\<bar>a * u - x\<bar> = \<bar>a - x / u\<bar> * \<bar>u\<bar>" by (simp only: abs_mult [symmetric])
    then show ?thesis using u by simp
  qed
  ultimately show ?thesis unfolding f u_def [symmetric] by (simp only: sc)
qed


lemma fl_nearest:
  assumes "is_double d"
  shows "\<bar>fl x - x\<bar> \<le> \<bar>d - x\<bar>"
proof (cases "x = 0 \<or> d = 0")
  case True
  then show ?thesis
  proof
    assume "x = 0"
    then show ?thesis by (simp add: fl_0)
  next
    assume "d = 0"
    then show ?thesis using fl_multiple [of x 0] by simp
  qed
next
  case False
  then have x0: "x \<noteq> 0" and d0: "d \<noteq> 0" by simp_all
  define e where "e = ulp_exp x"
  define k where "k = ulp_exp d"
  define nd where "nd = rne (d / 2 powi k)"
  have d: "d = of_int nd * 2 powi k"
    using assms d0 unfolding is_double_def fl_def nd_def k_def by simp
  show ?thesis
  proof (cases "e \<le> k")
    case True
    have "(2::rat) powi k = 2 powi ((k - e) + e)" by simp
    also have "\<dots> = 2 powi (k - e) * 2 powi e" by (rule pow2_add)
    also have "\<dots> = of_int (2 ^ nat (k - e)) * 2 powi e" using True by (simp add: pow2_nat)
    finally have "d = of_int (nd * 2 ^ nat (k - e)) * 2 powi e"
      unfolding d by simp
    then show ?thesis using fl_multiple [of x "nd * 2 ^ nat (k - e)"] unfolding e_def by simp
  next
    case False
    have "- 1074 \<le> k" unfolding k_def using ulp_exp_bounds(1) [OF d0] .
    with False have e1: "- 1074 < e" by simp
    have big: "2 powi (e + 52) \<le> \<bar>x\<bar>"
      using ulp_exp_bounds(3) [OF x0] e1 unfolding e_def by simp
    have "\<bar>d\<bar> < 2 powi (k + 53)" using ulp_exp_bounds(2) [OF d0] unfolding k_def .
    moreover have "(2::rat) powi (k + 53) \<le> 2 powi (e + 52)"
      by (rule pow2_mono) (use False in simp)
    ultimately have small: "\<bar>d\<bar> < 2 powi (e + 52)" by simp
    have p: "(2::rat) powi (e + 52) = of_int (2 ^ 52) * 2 powi e"
    proof -
      have "(2::rat) powi (e + 52) = 2 powi (52 + e)" by (simp add: add.commute)
      also have "\<dots> = 2 powi 52 * 2 powi e" by (rule pow2_add)
      finally show ?thesis by simp
    qed
    show ?thesis
    proof (cases "0 < x")
      case True
      have "\<bar>fl x - x\<bar> \<le> \<bar>of_int (2 ^ 52) * 2 powi e - x\<bar>"
        using fl_multiple [of x "2 ^ 52"] unfolding e_def .
      also have "\<dots> = \<bar>2 powi (e + 52) - x\<bar>" by (simp only: p)
      also have "\<dots> \<le> \<bar>d - x\<bar>" using big small True by linarith
      finally show ?thesis .
    next
      case False
      then have neg: "x < 0" using x0 by simp
      have "\<bar>fl x - x\<bar> \<le> \<bar>of_int (- (2 ^ 52)) * 2 powi e - x\<bar>"
        using fl_multiple [of x "- (2 ^ 52)"] unfolding e_def .
      also have "\<dots> = \<bar>- (2 powi (e + 52)) - x\<bar>" by (simp add: p)
      also have "\<dots> \<le> \<bar>d - x\<bar>" using big small neg by linarith
      finally show ?thesis .
    qed
  qed
qed

lemma fl_le_double: "is_double b \<Longrightarrow> x \<le> b \<Longrightarrow> fl x \<le> b"
  using fl_nearest [of b x] by linarith

lemma fl_of_int:
  assumes "\<bar>n\<bar> < 2 ^ 53"
  shows "fl (of_int n) = of_int n"
proof (cases "n = 0")
  case True
  then show ?thesis by (simp add: fl_0)
next
  case False
  define x :: rat where "x = of_int n"
  define e where "e = ulp_exp x"
  have x0: "x \<noteq> 0" unfolding x_def using False by simp
  have "(of_int \<bar>n\<bar> :: rat) < of_int (2 ^ 53)" using assms by (simp only: of_int_less_iff)
  then have "\<bar>x\<bar> < 2 powi 53" unfolding x_def by simp
  then have "ilog2 x < 53" by (rule ilog2_less [OF x0])
  then have e0: "e \<le> 0" unfolding e_def ulp_exp_def by simp
  have inv: "(2::rat) powi (- e) * 2 powi e = 1"
    using pow2_add [of "- e" e] by simp
  have pe: "(2::rat) powi (- e) = of_int (2 ^ nat (- e))" using e0 by (simp add: pow2_nat)
  have pos: "0 < (2::rat) powi e" by (rule pow2_pos)
  have "x / 2 powi e = x * 2 powi (- e)"
    using inv pos by (simp add: field_simps)
  also have "\<dots> = of_int (n * 2 ^ nat (- e))" unfolding pe x_def by simp
  finally have q: "x / 2 powi e = of_int (n * 2 ^ nat (- e))" .
  have "fl x = of_int (rne (x / 2 powi e)) * 2 powi e"
    unfolding fl_def e_def using x0 by simp
  also have "\<dots> = of_int (n * 2 ^ nat (- e)) * 2 powi e" by (simp only: q rne_of_int)
  also have "\<dots> = x * (2 powi (- e) * 2 powi e)" unfolding x_def pe by simp
  also have "\<dots> = x" by (simp only: inv mult_1_right)
  finally show ?thesis unfolding x_def .
qed

lemma rne_half: "\<bar>of_int (rne q) - q\<bar> \<le> 1 / 2"
proof -
  have "\<bar>of_int (rne q) - q\<bar> \<le> \<bar>of_int \<lfloor>q\<rfloor> - q\<bar>"
    and "\<bar>of_int (rne q) - q\<bar> \<le> \<bar>of_int (\<lfloor>q\<rfloor> + 1) - q\<bar>"
    by (rule rne_nearest)+
  moreover have "of_int \<lfloor>q\<rfloor> \<le> q" and "q < of_int \<lfloor>q\<rfloor> + 1" by linarith+
  ultimately show ?thesis by (simp only: of_int_add of_int_1)
qed

text \<open>Only numbers of at most half the smallest spacing round to 0.\<close>

lemma fl_zero_small:
  assumes "fl x = 0"
  shows "\<bar>x\<bar> \<le> 2 powi (- 1075)"
proof (cases "x = 0")
  case True
  then show ?thesis using pow2_pos [of "- 1075"] by simp
next
  case False
  define e where "e = ulp_exp x"
  define u where "u = (2::rat) powi e"
  have u: "0 < u" unfolding u_def by (rule pow2_pos)
  have "of_int (rne (x / u)) * u = 0"
    using assms False unfolding fl_def u_def e_def by simp
  then have n: "rne (x / u) = 0" using u by simp
  have "\<bar>of_int (rne (x / u)) - x / u\<bar> \<le> 1 / 2" by (rule rne_half)
  then have "\<bar>x / u\<bar> \<le> 1 / 2" unfolding n by simp
  then have "\<bar>x\<bar> / u \<le> 1 / 2" using u by (simp add: abs_divide)
  then have h: "\<bar>x\<bar> \<le> u / 2" using u by (simp add: field_simps)
  have e1: "e = - 1074"
  proof (rule ccontr)
    assume "e \<noteq> - 1074"
    then have "- 1074 < e" using ulp_exp_bounds(1) [OF False] unfolding e_def by simp
    then have "2 powi (e + 52) \<le> \<bar>x\<bar>" using ulp_exp_bounds(3) [OF False] unfolding e_def by simp
    moreover have "(2::rat) powi (e + 52) = 2 powi 52 * u"
      unfolding u_def using pow2_add [of 52 e] by (simp add: add.commute)
    ultimately have "2 powi 52 * u \<le> u / 2" using h by simp
    then show False using u by simp
  qed
  have "(2::rat) powi (- 1074) = 2 powi (1 + - 1075)" by simp
  also have "\<dots> = 2 * 2 powi (- 1075)" by (simp only: pow2_add) simp
  finally have "u / 2 = 2 powi (- 1075)" unfolding u_def e1 by simp
  with h show ?thesis by simp
qed

text \<open>Every float is a whole multiple of the smallest spacing.\<close>

lemma double_multiple:
  assumes "is_double a"
  shows "\<exists>m. a = of_int m * 2 powi (- 1074)"
proof (cases "a = 0")
  case True
  then show ?thesis by (intro exI [of _ 0]) simp
next
  case False
  define k where "k = ulp_exp a"
  have k: "- 1074 \<le> k" unfolding k_def by (rule ulp_exp_bounds(1) [OF False])
  have a: "a = of_int (rne (a / 2 powi k)) * 2 powi k"
    using assms False unfolding is_double_def fl_def k_def by simp
  have "(2::rat) powi k = 2 powi ((k + 1074) + - 1074)" by simp
  also have "\<dots> = 2 powi (k + 1074) * 2 powi (- 1074)" by (rule pow2_add)
  also have "\<dots> = of_int (2 ^ nat (k + 1074)) * 2 powi (- 1074)"
    using k by (simp add: pow2_nat)
  finally have pk: "(2::rat) powi k = of_int (2 ^ nat (k + 1074)) * 2 powi (- 1074)" .
  have "a = of_int (rne (a / 2 powi k)) * (of_int (2 ^ nat (k + 1074)) * 2 powi (- 1074))"
    using a by (simp only: pk [symmetric])
  then have "a = of_int (rne (a / 2 powi k) * 2 ^ nat (k + 1074)) * 2 powi (- 1074)"
    by (simp only: of_int_mult mult.assoc)
  then show ?thesis by (rule exI)
qed

text \<open>The sum of two floats does not round to 0 unless it is 0.\<close>

lemma float_add_negative:
  assumes "is_double a" and "is_double b" and "a + b < 0"
  shows "float_add a b < 0"
proof -
  from double_multiple [OF assms(1)] obtain m where m: "a = of_int m * 2 powi (- 1074)" ..
  from double_multiple [OF assms(2)] obtain n where n: "b = of_int n * 2 powi (- 1074)" ..
  have p: "0 < (2::rat) powi (- 1074)" by (rule pow2_pos)
  have s: "a + b = of_int (m + n) * 2 powi (- 1074)"
    unfolding m n by (simp add: distrib_right)
  have "of_int (m + n) * (2::rat) powi (- 1074) < 0" using assms(3) s by simp
  then have "(of_int (m + n) :: rat) < 0" using p by (simp add: mult_less_0_iff)
  then have "m + n \<le> - 1" by simp
  then have "(of_int (m + n) :: rat) \<le> - 1" by (metis of_int_le_iff of_int_minus of_int_1)
  then have "of_int (m + n) * (2::rat) powi (- 1074) \<le> - 1 * 2 powi (- 1074)"
    using p by (simp only: mult_le_cancel_right_pos)
  then have big: "2 powi (- 1074) \<le> \<bar>a + b\<bar>" unfolding s [symmetric] by simp
  have "(2::rat) powi (- 1074) = 2 powi (1 + - 1075)" by simp
  also have "\<dots> = 2 * 2 powi (- 1075)" by (simp only: pow2_add) simp
  finally have lt: "(2::rat) powi (- 1075) < 2 powi (- 1074)"
    using pow2_pos [of "- 1075"] by simp
  have "fl (a + b) \<noteq> 0"
  proof
    assume "fl (a + b) = 0"
    then have "\<bar>a + b\<bar> \<le> 2 powi (- 1075)" by (rule fl_zero_small)
    with big lt show False by simp
  qed
  moreover have "fl (a + b) \<le> 0" by (rule fl_nonpos) (use assms(3) in simp)
  ultimately show ?thesis unfolding float_add_def by simp
qed

lemma float_sub_self: "float_sub a a = 0"
  by (simp add: float_sub_def fl_0)

lemma float_add_nonneg: "0 \<le> b \<Longrightarrow> 0 \<le> a \<Longrightarrow> 0 \<le> float_add b a"
  unfolding float_add_def by (rule fl_nonneg) simp

lemma float_sub_nonneg: "a \<le> b \<Longrightarrow> 0 \<le> float_sub b a"
  unfolding float_sub_def by (rule fl_nonneg) simp

lemma fl_50: "fl 50 = 50"
  using fl_of_int [of 50] by simp

lemma f01_value: "f01 = 3602879701896397 / 36028797018963968"
  unfolding f01_def by code_simp

lemma f02_value: "f02 = 3602879701896397 / 18014398509481984"
  unfolding f02_def by code_simp

subsection \<open>Sums, dates and the concrete inputs\<close>







text \<open>
  Date arithmetic raises OverflowError below ordinal 1. The Monday of the week of a valid
  date is itself valid, so \<open>today - timedelta(days=today.weekday())\<close> never does.
\<close>

lemma week_start_of_valid: "1 \<le> today \<Longrightarrow> 1 \<le> week_start_of today"
proof -
  assume a: "1 \<le> today"
  have "(today + 6) mod 7 = (today - 1) mod 7"
    by presburger
  moreover have "(today - 1) mod 7 \<le> today - 1"
    by (rule zmod_le_nonneg_dividend) (use a in simp)
  ultimately have "(today + 6) mod 7 \<le> today - 1"
    by simp
  then show ?thesis
    unfolding week_start_of_def weekday_def by linarith
qed







lemma session50_value:
  "session50 =
     \<lparr>data = default_data\<lparr>savings_account := 50, savings_transactions :=
         [\<lparr>amount = 50, description = ''salary'', date = monday, timestamp = clock monday,
           tx_type = ''deposit''\<rparr>]\<rparr>,
      data_file = Some (default_data\<lparr>savings_account := 50, savings_transactions :=
         [\<lparr>amount = 50, description = ''salary'', date = monday, timestamp = clock monday,
           tx_type = ''deposit''\<rparr>]\<rparr>)\<rparr>"
  by (simp add: session50_def add_to_savings_def save_data_def initial_session_def
      default_data_def Let_def float_add_def fl_50)

lemma py_del_take_drop: "py_del i xs = take i xs @ drop (Suc i) xs"
  by (induction i xs rule: py_del.induct) simp_all

lemma length_py_del: "i < length xs \<Longrightarrow> length xs = Suc (length (py_del i xs))"
  by (induction i xs rule: py_del.induct) simp_all

lemma nth_py_del_before: "j < i \<Longrightarrow> i < length xs \<Longrightarrow> py_del i xs ! j = xs ! j"
  by (simp add: py_del_take_drop nth_append)

lemma nth_py_del_after: "i \<le> j \<Longrightarrow> i < length xs \<Longrightarrow> py_del i xs ! j = xs ! Suc j"
  by (simp add: py_del_take_drop nth_append min_def)

lemma three_incomes_value:
  "income (data three_incomes) =
     [\<lparr>amount = 10, description = ''a'', date = monday, timestamp = clock monday,
        account = ''current''\<rparr>,
      \<lparr>amount = 20, description = ''b'', date = monday, timestamp = clock monday,
        account = ''current''\<rparr>,
      \<lparr>amount = 30, description = ''c'', date = wednesday, timestamp = clock wednesday,
        account = ''current''\<rparr>]"
  by (simp add: three_incomes_def add_income_def save_data_def initial_session_def
      default_data_def)

lemma three_expenses_value:
  "expenses (data three_expenses) =
     [\<lparr>amount = 10, description = ''a'', date = monday, timestamp = clock monday,
        account = ''current'', category = ''Food''\<rparr>,
      \<lparr>amount = 20, description = ''b'', date = monday, timestamp = clock monday,
        account = ''current'', category = ''Food''\<rparr>,
      \<lparr>amount = 30, description = ''c'', date = wednesday, timestamp = clock wednesday,
        account = ''current'', category = ''Bills''\<rparr>]"
  by (simp add: three_expenses_def add_expense_def save_data_def initial_session_def
      default_data_def)

section \<open>The savings balance and its transaction log\<close>

lemma log_balance_snoc: "log_balance (txs @ [t]) = apply_transaction (log_balance txs) t"
  by (simp add: log_balance_def)

lemma deposit_keeps_log_balance:
  assumes "savings_account (data w) = log_balance (savings_transactions (data w))"
  shows "savings_account (data (add_to_savings a descr d now w)) =
         log_balance (savings_transactions (data (add_to_savings a descr d now w)))"
  using assms
  by (simp add: add_to_savings_def save_data_def Let_def log_balance_snoc apply_transaction_def)

lemma withdraw_keeps_log_balance:
  assumes "savings_account (data w) = log_balance (savings_transactions (data w))"
  shows "savings_account (data (snd (withdraw_from_savings a descr d now w))) =
         log_balance (savings_transactions (data (snd (withdraw_from_savings a descr d now w))))"
  using assms
  by (simp add: withdraw_from_savings_def save_data_def Let_def log_balance_snoc
      apply_transaction_def)

lemma apply_savings_op_log_balance:
  assumes "savings_account (data w) = log_balance (savings_transactions (data w))"
  shows "savings_account (data (apply_savings_op w x)) =
         log_balance (savings_transactions (data (apply_savings_op w x)))"
proof (cases x)
  case (Deposit a descr d now)
  then show ?thesis using deposit_keeps_log_balance [OF assms] by simp
next
  case (Withdraw a descr d now)
  then show ?thesis using withdraw_keeps_log_balance [OF assms] by simp
qed

lemma apply_savings_op_nonneg:
  assumes "0 \<le> savings_account (data w)" and "0 < op_amount x"
  shows "0 \<le> savings_account (data (apply_savings_op w x))"
proof (cases x)
  case (Deposit a descr d now)
  with assms show ?thesis
    by (simp add: add_to_savings_def save_data_def Let_def float_add_nonneg)
next
  case (Withdraw a descr d now)
  with assms show ?thesis
    by (simp add: withdraw_from_savings_def save_data_def Let_def float_sub_nonneg)
qed

lemma replay_log_balance:
  "savings_account (data w) = log_balance (savings_transactions (data w)) \<Longrightarrow>
   savings_account (data (replay ops w)) =
   log_balance (savings_transactions (data (replay ops w)))"
  unfolding replay_def
proof (induction ops arbitrary: w)
  case Nil
  then show ?case by simp
next
  case (Cons x xs)
  have "savings_account (data (apply_savings_op w x)) =
        log_balance (savings_transactions (data (apply_savings_op w x)))"
    by (rule apply_savings_op_log_balance) (rule Cons.prems)
  from Cons.IH [OF this] show ?case by simp
qed

lemma replay_nonneg:
  "0 \<le> savings_account (data w) \<Longrightarrow> \<forall>x \<in> set ops. 0 < op_amount x \<Longrightarrow>
   0 \<le> savings_account (data (replay ops w))"
  unfolding replay_def
proof (induction ops arbitrary: w)
  case Nil
  then show ?case by simp
next
  case (Cons x xs)
  have "0 \<le> savings_account (data (apply_savings_op w x))"
    by (rule apply_savings_op_nonneg) (use Cons.prems in simp_all)
  moreover have "\<forall>y \<in> set xs. 0 < op_amount y"
    using Cons.prems by simp
  ultimately show ?case using Cons.IH by simp
qed

text \<open>
  Whole amounts: while the balance and the deposits still to come stay below \<open>2 ^ 53\<close>,
  no operation rounds, and the balance is the difference of the two sums.
\<close>

lemma deposits_nonneg:
  "\<forall>x \<in> set ops. 0 < op_amount x \<Longrightarrow> 0 \<le> sum_list (map op_amount (filter is_deposit ops))"
  by (induction ops) (auto intro: add_nonneg_nonneg less_imp_le)

lemma whole_step:
  assumes b: "savings_account (data w) = of_int k" and k: "0 \<le> k"
    and s: "savings_account (data w) = deposits_minus_withdrawals (savings_transactions (data w))"
    and a: "0 < op_amount x" "op_amount x \<in> \<int>"
    and bound: "of_int k + (if is_deposit x then op_amount x else 0) < (2::rat) ^ 53"
  shows "\<exists>k'. savings_account (data (apply_savings_op w x)) = of_int k' \<and> 0 \<le> k' \<and>
           (of_int k' :: rat) \<le> of_int k + (if is_deposit x then op_amount x else 0) \<and>
           savings_account (data (apply_savings_op w x)) =
             deposits_minus_withdrawals (savings_transactions (data (apply_savings_op w x)))"
proof -
  from a(2) obtain j where j: "op_amount x = of_int j" by (auto elim: Ints_cases)
  with a(1) have j0: "0 < j" by simp
  show ?thesis
  proof (cases x)
    case (Deposit amt descr d now)
    then have amt: "amt = of_int j" using j by simp
    have "(of_int (k + j) :: rat) < of_int (2 ^ 53)" using bound Deposit amt by simp
    then have "k + j < 2 ^ 53" by (simp only: of_int_less_iff)
    then have "\<bar>k + j\<bar> < 2 ^ 53" using k j0 by simp
    then have r: "fl (of_int (k + j)) = of_int (k + j)" by (rule fl_of_int)
    have v: "savings_account (data (apply_savings_op w x)) = of_int (k + j)"
      using r by (simp add: Deposit amt add_to_savings_def save_data_def Let_def float_add_def b)
    have l: "deposits_minus_withdrawals (savings_transactions (data (apply_savings_op w x))) =
          deposits_minus_withdrawals (savings_transactions (data w)) + of_int j"
      by (simp add: Deposit amt add_to_savings_def save_data_def Let_def
          deposits_minus_withdrawals_def)
    show ?thesis
      using v l k j0 s b Deposit amt by (intro exI [of _ "k + j"]) simp
  next
    case (Withdraw amt descr d now)
    then have amt: "amt = of_int j" using j by simp
    show ?thesis
    proof (cases "j \<le> k")
      case True
      have "(of_int k :: rat) < of_int (2 ^ 53)" using bound Withdraw by simp
      then have "k < 2 ^ 53" by (simp only: of_int_less_iff)
      then have "\<bar>k - j\<bar> < 2 ^ 53" using True j0 by simp
      then have r: "fl (of_int (k - j)) = of_int (k - j)" by (rule fl_of_int)
      have v: "savings_account (data (apply_savings_op w x)) = of_int (k - j)"
        using r True
        by (simp add: Withdraw amt withdraw_from_savings_def save_data_def Let_def
            float_sub_def b)
      have l: "deposits_minus_withdrawals (savings_transactions (data (apply_savings_op w x))) =
          deposits_minus_withdrawals (savings_transactions (data w)) - of_int j"
        using True
        by (simp add: Withdraw amt withdraw_from_savings_def save_data_def Let_def
            deposits_minus_withdrawals_def b)
      show ?thesis
        using v l True j0 s b Withdraw by (intro exI [of _ "k - j"]) simp
    next
      case False
      then have "apply_savings_op w x = w"
        by (simp add: Withdraw amt withdraw_from_savings_def b)
      then show ?thesis
        using b k s Withdraw by (intro exI [of _ k]) simp
    qed
  qed
qed

lemma replay_whole:
  "savings_account (data w) = of_int k \<Longrightarrow> 0 \<le> k \<Longrightarrow>
   savings_account (data w) = deposits_minus_withdrawals (savings_transactions (data w)) \<Longrightarrow>
   \<forall>x \<in> set ops. 0 < op_amount x \<and> op_amount x \<in> \<int> \<Longrightarrow>
   of_int k + sum_list (map op_amount (filter is_deposit ops)) < (2::rat) ^ 53 \<Longrightarrow>
   savings_account (data (replay ops w)) =
     deposits_minus_withdrawals (savings_transactions (data (replay ops w)))"
proof (induction ops arbitrary: w k)
  case Nil
  then show ?case by (simp add: replay_def)
next
  case (Cons x xs)
  have pos: "\<forall>y \<in> set xs. 0 < op_amount y" using Cons.prems(4) by simp
  have rest: "0 \<le> sum_list (map op_amount (filter is_deposit xs))"
    by (rule deposits_nonneg [OF pos])
  have total: "of_int k + (if is_deposit x then op_amount x else 0) +
      sum_list (map op_amount (filter is_deposit xs)) < (2::rat) ^ 53"
    using Cons.prems(5) by (cases "is_deposit x") (simp_all add: add.assoc)
  then have here: "of_int k + (if is_deposit x then op_amount x else 0) < (2::rat) ^ 53"
    using rest by linarith
  from whole_step [OF Cons.prems(1) Cons.prems(2) Cons.prems(3) _ _ here] Cons.prems(4)
  obtain k' where k': "savings_account (data (apply_savings_op w x)) = of_int k'" "0 \<le> k'"
      "(of_int k' :: rat) \<le> of_int k + (if is_deposit x then op_amount x else 0)"
      "savings_account (data (apply_savings_op w x)) =
         deposits_minus_withdrawals (savings_transactions (data (apply_savings_op w x)))"
    by auto
  have "of_int k' + sum_list (map op_amount (filter is_deposit xs)) < (2::rat) ^ 53"
    using k'(3) total by linarith
  from Cons.IH [OF k'(1) k'(2) k'(4) _ this] Cons.prems(4)
  have "savings_account (data (replay xs (apply_savings_op w x))) =
     deposits_minus_withdrawals (savings_transactions (data (replay xs (apply_savings_op w x))))"
    by simp
  then show ?case by (simp add: replay_def)
qed

lemma example_ops_result:
  "savings_account (data (replay example_ops initial_session)) = 30"
  "length (savings_transactions (data (replay example_ops initial_session))) = 2"
  using fl_of_int [of 50] fl_of_int [of 30]
  by (simp_all add: example_ops_def replay_def add_to_savings_def withdraw_from_savings_def
      save_data_def initial_session_def default_data_def Let_def float_add_def float_sub_def)

lemma float_values:
  "float_add 0 f01 = f01"
  "float_add f01 f02 = 1351079888211149 / 4503599627370496"
  "float_sub f01 f01 = 0"
  "float_add 0 f02 = f02"
  "float_sub (1351079888211149 / 4503599627370496) f01 = 7205759403792795 / 36028797018963968"
  "is_double f01"
  "is_double f02"
  unfolding f01_value f02_value float_add_def float_sub_def is_double_def by code_simp+

text \<open>
  Two deposits, of 0.1 and of 0.2, leave the float 0.30000000000000004, which is not the
  sum of the two amounts. A deposit of 0.1, a withdrawal of 0.1 and a deposit of 0.2 leave
  0.2, where the sum of the deposits minus the sum of the withdrawals is
  0.20000000000000004 when computed in floats.
\<close>

theorem savings_balance_sum_counterexample:
  "is_double f01 \<and> is_double f02 \<and>
   savings_account (data (replay two_deposits initial_session)) =
     1351079888211149 / 4503599627370496 \<and>
   deposits_minus_withdrawals (savings_transactions (data (replay two_deposits initial_session))) =
     10808639105689191 / 36028797018963968 \<and>
   savings_account (data (replay two_deposits initial_session)) \<noteq>
     deposits_minus_withdrawals (savings_transactions (data (replay two_deposits initial_session))) \<and>
   savings_account (data (replay deposit_withdraw_deposit initial_session)) =
     7205759403792794 / 36028797018963968 \<and>
   deposits_minus_withdrawals_float
     (savings_transactions (data (replay deposit_withdraw_deposit initial_session))) =
     7205759403792795 / 36028797018963968 \<and>
   savings_account (data (replay deposit_withdraw_deposit initial_session)) \<noteq>
     deposits_minus_withdrawals_float
       (savings_transactions (data (replay deposit_withdraw_deposit initial_session)))"
proof -
  have a: "savings_account (data (replay two_deposits initial_session)) =
      1351079888211149 / 4503599627370496"
    by (simp add: two_deposits_def replay_def add_to_savings_def save_data_def
        initial_session_def default_data_def Let_def float_values)
  have b: "deposits_minus_withdrawals
      (savings_transactions (data (replay two_deposits initial_session))) =
      10808639105689191 / 36028797018963968"
    by (simp add: two_deposits_def replay_def add_to_savings_def save_data_def
        initial_session_def default_data_def Let_def deposits_minus_withdrawals_def
        f01_value f02_value)
  have c: "savings_account (data (replay deposit_withdraw_deposit initial_session)) =
      7205759403792794 / 36028797018963968"
    by (simp add: deposit_withdraw_deposit_def replay_def add_to_savings_def
        withdraw_from_savings_def save_data_def initial_session_def default_data_def Let_def
        float_values) (simp add: f02_value)
  have d: "deposits_minus_withdrawals_float
      (savings_transactions (data (replay deposit_withdraw_deposit initial_session))) =
      7205759403792795 / 36028797018963968"
    by (simp add: deposit_withdraw_deposit_def replay_def add_to_savings_def
        withdraw_from_savings_def save_data_def initial_session_def default_data_def Let_def
        deposits_minus_withdrawals_float_def float_sum_def float_values)
  show ?thesis unfolding a b c d using float_values(6,7) by simp
qed

text \<open>
  Claim C1, with the balance as the program computes it. Replaying any sequence of
  deposits and withdrawals from a state with \<open>savings_account = 0\<close> and no savings
  transactions leaves \<open>savings_account\<close> equal to the log applied to 0.0 in order, each
  deposit added and each withdrawal subtracted in floats; when every requested amount is
  positive, the balance is non-negative after every prefix of the sequence; and when the
  amounts are positive whole numbers with deposits of less than \<open>2 ^ 53\<close> in total, the
  balance is the sum of the logged deposits minus the sum of the logged withdrawals.
\<close>

theorem savings_balance_replays_log:
  "savings_account (data w) = 0 \<and> savings_transactions (data w) = [] \<longrightarrow>
   savings_account (data (replay ops w)) =
     log_balance (savings_transactions (data (replay ops w))) \<and>
   ((\<forall>x \<in> set ops. 0 < op_amount x) \<longrightarrow>
     (\<forall>n. 0 \<le> savings_account (data (replay (take n ops) w)))) \<and>
   ((\<forall>x \<in> set ops. 0 < op_amount x \<and> op_amount x \<in> \<int>) \<and>
    sum_list (map op_amount (filter is_deposit ops)) < 2 ^ 53 \<longrightarrow>
     savings_account (data (replay ops w)) =
       deposits_minus_withdrawals (savings_transactions (data (replay ops w))))"
proof (intro conjI impI allI)
  assume init: "savings_account (data w) = 0 \<and> savings_transactions (data w) = []"
  then have "savings_account (data w) = log_balance (savings_transactions (data w))"
    by (simp add: log_balance_def)
  then show "savings_account (data (replay ops w)) =
     log_balance (savings_transactions (data (replay ops w)))"
    by (rule replay_log_balance)
  {
    fix n
    assume pos: "\<forall>x \<in> set ops. 0 < op_amount x"
    have "\<forall>x \<in> set (take n ops). 0 < op_amount x"
      using pos by (meson in_set_takeD)
    moreover have "0 \<le> savings_account (data w)"
      using init by simp
    ultimately show "0 \<le> savings_account (data (replay (take n ops) w))"
      by (rule replay_nonneg [rotated])
  }
  assume whole: "(\<forall>x \<in> set ops. 0 < op_amount x \<and> op_amount x \<in> \<int>) \<and>
    sum_list (map op_amount (filter is_deposit ops)) < 2 ^ 53"
  have z: "savings_account (data w) = of_int 0" using init by simp
  have s: "savings_account (data w) = deposits_minus_withdrawals (savings_transactions (data w))"
    using init by (simp add: deposits_minus_withdrawals_def)
  show "savings_account (data (replay ops w)) =
       deposits_minus_withdrawals (savings_transactions (data (replay ops w)))"
    by (rule replay_whole [OF z _ s]) (use whole in simp_all)
qed

theorem savings_balance_replays_log_witness:
  "savings_account (data initial_session) = 0 \<and>
   savings_transactions (data initial_session) = [] \<and>
   savings_account (data (replay example_ops initial_session)) =
     log_balance (savings_transactions (data (replay example_ops initial_session))) \<and>
   savings_account (data (replay example_ops initial_session)) =
     deposits_minus_withdrawals (savings_transactions (data (replay example_ops initial_session))) \<and>
   savings_account (data (replay example_ops initial_session)) = 30 \<and>
   length (savings_transactions (data (replay example_ops initial_session))) = 2 \<and>
   0 \<le> savings_account (data (replay (take 2 example_ops) initial_session))"
proof -
  have init: "savings_account (data initial_session) = 0 \<and>
      savings_transactions (data initial_session) = []"
    by (simp add: initial_session_def default_data_def)
  have pos: "\<forall>x \<in> set example_ops. 0 < op_amount x"
    by (simp add: example_ops_def)
  have whole: "(\<forall>x \<in> set example_ops. 0 < op_amount x \<and> op_amount x \<in> \<int>) \<and>
      sum_list (map op_amount (filter is_deposit example_ops)) < 2 ^ 53"
    by (simp add: example_ops_def)
  from savings_balance_replays_log [of initial_session example_ops] init pos whole
    example_ops_result
  show ?thesis by blast
qed

section \<open>Withdrawals\<close>

text \<open>
  Claim C2. A withdrawal of more than the current savings balance returns
  \<open>False\<close> and leaves the whole session as it was: the balance, the transaction log,
  every other field and the file on disk.
\<close>

theorem withdraw_insufficient_unchanged:
  "amt > savings_account (data w) \<Longrightarrow> withdraw_from_savings amt descr d now w = (False, w)"
  by (simp add: withdraw_from_savings_def)

theorem withdraw_insufficient_unchanged_witness:
  "savings_account (data session50) < 60 \<and>
   withdraw_from_savings 60 ''trip'' wednesday (clock wednesday) session50 = (False, session50) \<and>
   savings_account (data session50) = 50 \<and>
   length (savings_transactions (data session50)) = 1"
proof -
  have h: "60 > savings_account (data session50)"
    by (simp add: session50_value)
  have "savings_account (data session50) = 50"
    by (simp add: session50_value)
  moreover have "length (savings_transactions (data session50)) = 1"
    by (simp add: session50_value)
  ultimately show ?thesis
    using h withdraw_insufficient_unchanged [OF h, of "''trip''" wednesday "clock wednesday"]
    by simp
qed

text \<open>
  Claim C8. \<open>withdraw_from_savings\<close> returns \<open>True\<close> exactly when the amount is at
  most the savings balance; a withdrawal of exactly the balance succeeds and leaves the
  balance 0.
\<close>

theorem withdraw_succeeds_iff:
  "fst (withdraw_from_savings amt descr d now w) = (amt \<le> savings_account (data w)) \<and>
   (amt = savings_account (data w) \<longrightarrow>
      fst (withdraw_from_savings amt descr d now w) \<and>
      savings_account (data (snd (withdraw_from_savings amt descr d now w))) = 0)"
  by (simp add: withdraw_from_savings_def save_data_def Let_def float_sub_self)

theorem withdraw_succeeds_iff_witness:
  "50 = savings_account (data session50) \<and>
   fst (withdraw_from_savings 50 ''all'' wednesday (clock wednesday) session50) \<and>
   savings_account (data (snd (withdraw_from_savings 50 ''all'' wednesday (clock wednesday) session50))) = 0 \<and>
   \<not> fst (withdraw_from_savings 51 ''more'' wednesday (clock wednesday) session50)"
proof -
  have h: "50 = savings_account (data session50)"
    by (simp add: session50_value)
  have n: "\<not> (51 \<le> savings_account (data session50))"
    by (simp add: session50_value)
  show ?thesis
    using h n
      withdraw_succeeds_iff [of 50 "''all''" wednesday "clock wednesday" session50]
      withdraw_succeeds_iff [of 51 "''more''" wednesday "clock wednesday" session50]
    by simp
qed

section \<open>The budget status\<close>










section \<open>Adding and deleting entries\<close>

text \<open>
  Claim C7. For an index inside the list, \<open>delete_income\<close> (and likewise
  \<open>delete_expense\<close>) makes the list one shorter, keeps the entries before the index in
  place and moves each later entry down by one, and saves; for any other index, negative
  ones too, the session is returned as it was and nothing is saved.
\<close>

theorem delete_at_index:
  "(0 \<le> i \<and> i < int (length (income (data w))) \<longrightarrow>
      length (income (data w)) = Suc (length (income (data (delete_income i w)))) \<and>
      (\<forall>j. j < nat i \<longrightarrow> income (data (delete_income i w)) ! j = income (data w) ! j) \<and>
      (\<forall>j. nat i \<le> j \<and> j < length (income (data (delete_income i w))) \<longrightarrow>
           income (data (delete_income i w)) ! j = income (data w) ! Suc j) \<and>
      data_file (delete_income i w) = Some (data (delete_income i w))) \<and>
   (\<not> (0 \<le> i \<and> i < int (length (income (data w)))) \<longrightarrow> delete_income i w = w) \<and>
   (0 \<le> i \<and> i < int (length (expenses (data w))) \<longrightarrow>
      length (expenses (data w)) = Suc (length (expenses (data (delete_expense i w)))) \<and>
      (\<forall>j. j < nat i \<longrightarrow> expenses (data (delete_expense i w)) ! j = expenses (data w) ! j) \<and>
      (\<forall>j. nat i \<le> j \<and> j < length (expenses (data (delete_expense i w))) \<longrightarrow>
           expenses (data (delete_expense i w)) ! j = expenses (data w) ! Suc j) \<and>
      data_file (delete_expense i w) = Some (data (delete_expense i w))) \<and>
   (\<not> (0 \<le> i \<and> i < int (length (expenses (data w)))) \<longrightarrow> delete_expense i w = w)"
proof -
  have inc: "length (income (data w)) = Suc (length (income (data (delete_income i w)))) \<and>
      (\<forall>j. j < nat i \<longrightarrow> income (data (delete_income i w)) ! j = income (data w) ! j) \<and>
      (\<forall>j. nat i \<le> j \<and> j < length (income (data (delete_income i w))) \<longrightarrow>
           income (data (delete_income i w)) ! j = income (data w) ! Suc j) \<and>
      data_file (delete_income i w) = Some (data (delete_income i w))"
    if r: "0 \<le> i \<and> i < int (length (income (data w)))"
  proof -
    from r have n: "nat i < length (income (data w))" by linarith
    have eq: "income (data (delete_income i w)) = py_del (nat i) (income (data w))"
      using r by (simp add: delete_income_def save_data_def)
    have "data_file (delete_income i w) = Some (data (delete_income i w))"
      using r by (simp add: delete_income_def save_data_def)
    then show ?thesis
      unfolding eq using n length_py_del [OF n]
      by (simp add: nth_py_del_before nth_py_del_after)
  qed
  have exp: "length (expenses (data w)) = Suc (length (expenses (data (delete_expense i w)))) \<and>
      (\<forall>j. j < nat i \<longrightarrow> expenses (data (delete_expense i w)) ! j = expenses (data w) ! j) \<and>
      (\<forall>j. nat i \<le> j \<and> j < length (expenses (data (delete_expense i w))) \<longrightarrow>
           expenses (data (delete_expense i w)) ! j = expenses (data w) ! Suc j) \<and>
      data_file (delete_expense i w) = Some (data (delete_expense i w))"
    if r: "0 \<le> i \<and> i < int (length (expenses (data w)))"
  proof -
    from r have n: "nat i < length (expenses (data w))" by linarith
    have eq: "expenses (data (delete_expense i w)) = py_del (nat i) (expenses (data w))"
      using r by (simp add: delete_expense_def save_data_def)
    have "data_file (delete_expense i w) = Some (data (delete_expense i w))"
      using r by (simp add: delete_expense_def save_data_def)
    then show ?thesis
      unfolding eq using n length_py_del [OF n]
      by (simp add: nth_py_del_before nth_py_del_after)
  qed
  have no_inc: "delete_income i w = w" if "\<not> (0 \<le> i \<and> i < int (length (income (data w))))"
    unfolding delete_income_def by (simp only: that if_False)
  have no_exp: "delete_expense i w = w" if "\<not> (0 \<le> i \<and> i < int (length (expenses (data w))))"
    unfolding delete_expense_def by (simp only: that if_False)
  from inc exp no_inc no_exp show ?thesis by blast
qed

theorem delete_at_index_witness:
  "length (income (data (delete_income 1 three_incomes))) = 2 \<and>
   income (data (delete_income 1 three_incomes)) ! 0 = income (data three_incomes) ! 0 \<and>
   income (data (delete_income 1 three_incomes)) ! 1 = income (data three_incomes) ! 2 \<and>
   delete_income 3 three_incomes = three_incomes \<and>
   delete_income (- 1) three_incomes = three_incomes \<and>
   length (expenses (data (delete_expense 0 three_expenses))) = 2 \<and>
   expenses (data (delete_expense 0 three_expenses)) ! 0 = expenses (data three_expenses) ! 1 \<and>
   expenses (data (delete_expense 0 three_expenses)) ! 1 = expenses (data three_expenses) ! 2 \<and>
   delete_expense 0 initial_session = initial_session \<and>
   data_file (delete_expense 0 initial_session) = None"
proof -
  have li: "length (income (data three_incomes)) = 3"
    by (simp add: three_incomes_value)
  have le: "length (expenses (data three_expenses)) = 3"
    by (simp add: three_expenses_value)
  have l0: "length (expenses (data initial_session)) = 0"
    by (simp add: initial_session_def default_data_def)
  have f0: "data_file initial_session = None"
    by (simp add: initial_session_def)
  note a = delete_at_index [of 1 three_incomes, unfolded li le]
  note b = delete_at_index [of 3 three_incomes, unfolded li le]
  note c = delete_at_index [of "- 1" three_incomes, unfolded li le]
  note d = delete_at_index [of 0 three_expenses, unfolded le]
  note e = delete_at_index [of 0 initial_session, unfolded l0]
  have a1: "length (income (data (delete_income 1 three_incomes))) = 2"
    using a by simp
  have a2: "income (data (delete_income 1 three_incomes)) ! 0 = income (data three_incomes) ! 0"
    using a by simp
  have a3: "income (data (delete_income 1 three_incomes)) ! 1 = income (data three_incomes) ! 2"
    using a a1 by (simp add: numeral_2_eq_2)
  have b1: "delete_income 3 three_incomes = three_incomes"
    using b by simp
  have c1: "delete_income (- 1) three_incomes = three_incomes"
    using c by simp
  have d1: "length (expenses (data (delete_expense 0 three_expenses))) = 2"
    using d by simp
  have d2: "expenses (data (delete_expense 0 three_expenses)) ! 0 = expenses (data three_expenses) ! 1"
    using d d1 by simp
  have d3: "expenses (data (delete_expense 0 three_expenses)) ! 1 = expenses (data three_expenses) ! 2"
    using d d1 by (simp add: numeral_2_eq_2)
  have e1: "delete_expense 0 initial_session = initial_session"
    using e by simp
  from a1 a2 a3 b1 c1 d1 d2 d3 e1 f0 show ?thesis by simp
qed

lemma big_session_balance: "savings_account (data big_session) = 10000000000000000"
proof -
  have "fl 10000000000000000 = 10000000000000000" by code_simp
  then show ?thesis
    by (simp add: big_session_def add_to_savings_def save_data_def initial_session_def
        default_data_def Let_def float_add_def)
qed

text \<open>
  On a balance of 1e16 a deposit of -0.5 is lost to rounding: the balance stays 1e16.
\<close>

theorem negative_deposit_counterexample:
  "is_double (- 1 / 2) \<and> (- 1 / 2 :: rat) < 0 \<and>
   savings_account (data big_session) = 10000000000000000 \<and>
   savings_account (data (add_to_savings (- 1 / 2) ''fee'' monday (clock monday) big_session)) =
     10000000000000000 \<and>
   \<not> savings_account (data (add_to_savings (- 1 / 2) ''fee'' monday (clock monday) big_session)) <
     savings_account (data big_session)"
proof -
  have d: "is_double (- 1 / 2)" unfolding is_double_def by code_simp
  have r: "fl (10000000000000000 + - 1 / 2) = 10000000000000000" by code_simp
  have "savings_account (data (add_to_savings (- 1 / 2) ''fee'' monday (clock monday) big_session)) =
      10000000000000000"
    using r by (simp add: add_to_savings_def save_data_def Let_def float_add_def
        big_session_balance)
  then show ?thesis using d big_session_balance by simp
qed

text \<open>
  Claim C9, with the addition of floats. The add operations check nothing: for every
  amount and description \<open>add_income\<close> and \<open>add_expense\<close> append the entry, and
  \<open>add_to_savings\<close> appends a deposit and adds the amount to the balance as floats are
  added. A negative deposit never raises a balance that is a float, lowers it when the
  exact sum is a float, and leaves it below zero when it outweighs it.
\<close>

theorem add_operations_unconditional:
  "income (data (add_income amt descr d now w)) =
     income (data w) @
       [\<lparr>amount = amt, description = descr, date = d, timestamp = now, account = ''current''\<rparr>] \<and>
   expenses (data (add_expense amt descr cat d now w)) =
     expenses (data w) @
       [\<lparr>amount = amt, description = descr, date = d, timestamp = now,
         account = ''current'', category = cat\<rparr>] \<and>
   savings_transactions (data (add_to_savings amt descr d now w)) =
     savings_transactions (data w) @
       [\<lparr>amount = amt, description = descr, date = d, timestamp = now, tx_type = ''deposit''\<rparr>] \<and>
   savings_account (data (add_to_savings amt descr d now w)) =
     float_add (savings_account (data w)) amt \<and>
   (amt < 0 \<and> is_double (savings_account (data w)) \<longrightarrow>
      savings_account (data (add_to_savings amt descr d now w)) \<le> savings_account (data w)) \<and>
   (amt < 0 \<and> is_double (savings_account (data w) + amt) \<longrightarrow>
      savings_account (data (add_to_savings amt descr d now w)) < savings_account (data w)) \<and>
   (is_double (savings_account (data w)) \<and> is_double amt \<and> savings_account (data w) < - amt \<longrightarrow>
      savings_account (data (add_to_savings amt descr d now w)) < 0)"
proof -
  let ?b = "savings_account (data w)"
  have v: "savings_account (data (add_to_savings amt descr d now w)) = float_add ?b amt"
    by (simp add: add_to_savings_def save_data_def Let_def)
  have l: "float_add ?b amt \<le> ?b" if "amt < 0 \<and> is_double ?b"
    unfolding float_add_def by (rule fl_le_double) (use that in simp_all)
  have e: "float_add ?b amt < ?b" if "amt < 0 \<and> is_double (?b + amt)"
    using that unfolding float_add_def is_double_def by simp
  have n: "float_add ?b amt < 0" if "is_double ?b \<and> is_double amt \<and> ?b < - amt"
    by (rule float_add_negative) (use that in simp_all)
  have i: "income (data (add_income amt descr d now w)) =
     income (data w) @
       [\<lparr>amount = amt, description = descr, date = d, timestamp = now, account = ''current''\<rparr>]"
    by (simp add: add_income_def save_data_def)
  have x: "expenses (data (add_expense amt descr cat d now w)) =
     expenses (data w) @
       [\<lparr>amount = amt, description = descr, date = d, timestamp = now,
         account = ''current'', category = cat\<rparr>]"
    by (simp add: add_expense_def save_data_def)
  have t: "savings_transactions (data (add_to_savings amt descr d now w)) =
     savings_transactions (data w) @
       [\<lparr>amount = amt, description = descr, date = d, timestamp = now, tx_type = ''deposit''\<rparr>]"
    by (simp add: add_to_savings_def save_data_def Let_def)
  from i x t l e n show ?thesis unfolding v by blast
qed

theorem add_operations_unconditional_witness:
  "(- 5 :: rat) < 0 \<and> is_double (savings_account (data initial_session)) \<and> is_double (- 5) \<and>
   is_double (savings_account (data initial_session) + - 5) \<and>
   savings_account (data initial_session) < - (- 5) \<and>
   savings_account (data (add_to_savings (- 5) [] monday (clock monday) initial_session)) = - 5 \<and>
   savings_account (data (add_to_savings (- 5) [] monday (clock monday) initial_session)) < 0 \<and>
   savings_account (data (add_to_savings (- 5) [] monday (clock monday) initial_session)) <
     savings_account (data initial_session) \<and>
   length (savings_transactions
     (data (add_to_savings (- 5) [] monday (clock monday) initial_session))) = 1 \<and>
   length (income (data (add_income 0 [] monday (clock monday) initial_session))) = 1 \<and>
   length (expenses (data (add_expense (- 1) [] [] monday (clock monday) initial_session))) = 1"
proof -
  have e: "savings_account (data initial_session) = 0"
      "savings_transactions (data initial_session) = []"
      "income (data initial_session) = []" "expenses (data initial_session) = []"
    by (simp_all add: initial_session_def default_data_def)
  have f: "fl (- 5) = - 5" using fl_of_int [of "- 5"] by simp
  have d: "is_double 0" "is_double (- 5)"
    by (simp_all add: is_double_def fl_0 f)
  have v: "float_add 0 (- 5) = - 5" by (simp add: float_add_def f)
  show ?thesis
    using e d v
      add_operations_unconditional [of "- 5" "[]" monday "clock monday" initial_session "[]"]
      add_operations_unconditional [of 0 "[]" monday "clock monday" initial_session "[]"]
      add_operations_unconditional [of "- 1" "[]" monday "clock monday" initial_session "[]"]
    by simp
qed

text \<open>
  Claim C10. \<open>delete_income\<close> changes no field of the state but \<open>income\<close>, and
  \<open>delete_expense\<close> none but \<open>expenses\<close>, whatever the index.
\<close>

theorem delete_frame:
  "expenses (data (delete_income i w)) = expenses (data w) \<and>
   savings_account (data (delete_income i w)) = savings_account (data w) \<and>
   savings_transactions (data (delete_income i w)) = savings_transactions (data w) \<and>
   settings (data (delete_income i w)) = settings (data w) \<and>
   income (data (delete_expense i w)) = income (data w) \<and>
   savings_account (data (delete_expense i w)) = savings_account (data w) \<and>
   savings_transactions (data (delete_expense i w)) = savings_transactions (data w) \<and>
   settings (data (delete_expense i w)) = settings (data w)"
  by (simp add: delete_income_def delete_expense_def save_data_def)

end
